theory Spec2Isabelle
  imports Main "HOL-Library.Multiset"
begin

section \<open>The key helpers of the streaming-zarr notebook\<close>

text \<open>
  The notebook \<^verbatim>\<open>example.ipynb\<close> defines two helpers over the key listing of a store:
  \<^verbatim>\<open>
  def get_all_keys(store):
      '''helper function to get all available keys in the RedisStore'''
      keys = list(set([s.split('/')[0] for s in store.keylist()]))
      keys.remove('.zgroup')
      keys.sort(key=int)
      return keys

  def get_most_recent_key(store):
      '''helper function to get the most recent key from redis'''
      keys = get_all_keys(store)
      return keys[-1]
  \<close>
  The model takes the list returned by \<^verbatim>\<open>store.keylist()\<close> as its input. Strings are
  lists of 8-bit characters, so the model covers the keys whose code points are below 256.
\<close>

subsection \<open>Exceptions\<close>

text \<open>
  Two Python exceptions can leave these helpers. \<^verbatim>\<open>ValueError\<close> is raised by
  \<^verbatim>\<open>list.remove\<close> (the element is not in the list) and by \<^verbatim>\<open>int\<close> (the string is not
  a literal; the message quotes it). \<^verbatim>\<open>IndexError\<close> is raised by \<^verbatim>\<open>keys[-1]\<close> on an
  empty list.
\<close>

datatype value_error = NotInList | InvalidLiteral string

datatype error = ValueError value_error | IndexError

subsection \<open>\<^verbatim>\<open>str.split\<close> with a one-character separator\<close>

text \<open>
  \<^verbatim>\<open>s.split(sep)\<close> never returns an empty list: the result is its first piece and the
  list of the pieces after it. \<^verbatim>\<open>''.split('/')\<close> is \<^verbatim>\<open>['']\<close>.
\<close>

fun py_split :: "char \<Rightarrow> string \<Rightarrow> string \<times> string list" where
  "py_split sep [] = ([], [])"
| "py_split sep (c # cs) =
     (case py_split sep cs of
        (p, ps) \<Rightarrow> if c = sep then ([], p # ps) else (c # p, ps))"

text \<open>\<^verbatim>\<open>s.split('/')[0]\<close>\<close>

definition key_prefix :: "string \<Rightarrow> string" where
  "key_prefix s = fst (py_split CHR ''/'' s)"

text \<open>\<^verbatim>\<open>[s.split('/')[0] for s in store.keylist()]\<close>\<close>

definition candidates :: "string list \<Rightarrow> string list" where
  "candidates keylist = map key_prefix keylist"

subsection \<open>\<^verbatim>\<open>int\<close> of a string, base 10\<close>

text \<open>
  CPython first turns non-ASCII white space into a blank (below 256 these are NEL and
  NBSP), then skips leading white space (tab, line feed, vertical tab, form feed,
  carriage return, blank), reads an optional sign, then digits in which single
  underscores may stand between two digits, then skips trailing white space, and
  raises \<^verbatim>\<open>ValueError\<close> unless the whole string was read. The interpreter of the
  notebook (3.7.5) puts no bound on the number of digits.
\<close>

definition to_ascii_space :: "char \<Rightarrow> char" where
  "to_ascii_space c = (if c = CHR 0x85 \<or> c = CHR 0xA0 then CHR 0x20 else c)"

definition is_space :: "char \<Rightarrow> bool" where
  "is_space c \<longleftrightarrow> c \<in> {CHR 0x09, CHR 0x0A, CHR 0x0B, CHR 0x0C, CHR 0x0D, CHR 0x20}"

definition is_digit :: "char \<Rightarrow> bool" where
  "is_digit c \<longleftrightarrow> (48::nat) \<le> of_char c \<and> (of_char c :: nat) \<le> 57"

definition digit_value :: "char \<Rightarrow> nat" where
  "digit_value c = of_char c - 48"

text \<open>
  The scanning loop: the flag says that the previous character was an underscore.
  It stops at the first character that is neither a digit nor an underscore and
  returns the value read and the rest of the string.
\<close>

fun scan_digits :: "bool \<Rightarrow> nat \<Rightarrow> string \<Rightarrow> (nat \<times> string) option" where
  "scan_digits prev_us acc [] = (if prev_us then None else Some (acc, []))"
| "scan_digits prev_us acc (c # cs) =
     (if c = CHR ''_'' then (if prev_us then None else scan_digits True acc cs)
      else if is_digit c then scan_digits False (10 * acc + digit_value c) cs
      else if prev_us then None else Some (acc, c # cs))"

definition read_sign :: "string \<Rightarrow> bool \<times> string" where
  "read_sign s =
     (case s of
        [] \<Rightarrow> (False, [])
      | c # cs \<Rightarrow> if c = CHR ''+'' then (False, cs)
                  else if c = CHR ''-'' then (True, cs) else (False, c # cs))"

definition py_int :: "string \<Rightarrow> int option" where
  "py_int s =
     (case read_sign (dropWhile is_space (map to_ascii_space s)) of
        (neg, ds) \<Rightarrow>
          (case ds of
             [] \<Rightarrow> None
           | c # _ \<Rightarrow>
               if \<not> is_digit c then None
               else (case scan_digits False 0 ds of
                       None \<Rightarrow> None
                     | Some (n, rest) \<Rightarrow>
                         if dropWhile is_space rest = []
                         then Some (if neg then - int n else int n)
                         else None)))"

subsection \<open>The list operations\<close>

text \<open>\<^verbatim>\<open>keys.remove(x)\<close>: removes the first occurrence, raises when there is none.\<close>

definition py_remove :: "string \<Rightarrow> string list \<Rightarrow> error + string list" where
  "py_remove x keys =
     (if x \<in> set keys then Inr (remove1 x keys) else Inl (ValueError NotInList))"

text \<open>
  \<^verbatim>\<open>keys.sort(key=int)\<close>: the key of every element is computed first, in list order,
  and the first element that \<^verbatim>\<open>int\<close> rejects raises. The elements are then sorted by
  their keys, and the sort is stable.
\<close>

fun int_keys :: "string list \<Rightarrow> error + (int \<times> string) list" where
  "int_keys [] = Inr []"
| "int_keys (s # ss) =
     (case py_int s of
        None \<Rightarrow> Inl (ValueError (InvalidLiteral s))
      | Some k \<Rightarrow> (case int_keys ss of Inl e \<Rightarrow> Inl e | Inr ks \<Rightarrow> Inr ((k, s) # ks)))"

definition py_sort_key_int :: "string list \<Rightarrow> error + string list" where
  "py_sort_key_int keys =
     (case int_keys keys of
        Inl e \<Rightarrow> Inl e
      | Inr ks \<Rightarrow> Inr (map snd (sort_key fst ks)))"

text \<open>\<^verbatim>\<open>keys[-1]\<close>\<close>

definition py_last :: "string list \<Rightarrow> error + string" where
  "py_last keys = (if keys = [] then Inl IndexError else Inr (last keys))"

subsection \<open>The two helpers\<close>

text \<open>
  \<^verbatim>\<open>list(set(xs))\<close> lists the distinct elements of \<^verbatim>\<open>xs\<close> in the iteration order of
  the set, which depends on the hash values of the strings and is fixed within one
  interpreter process only. The model takes this order as the parameter \<open>set_order\<close>;
  all that is known of it is \<open>valid_set_order\<close>. The literal \<^verbatim>\<open>'.zgroup'\<close> is the
  parameter \<open>marker\<close> of \<open>get_all_keys_of\<close>, and \<open>get_all_keys\<close> is the notebook's
  function, at the literal.
\<close>

type_synonym set_order = "string list \<Rightarrow> string list"

definition valid_set_order :: "set_order \<Rightarrow> bool" where
  "valid_set_order set_order \<longleftrightarrow>
     (\<forall>xs. distinct (set_order xs) \<and> set (set_order xs) = set xs)"

definition get_all_keys_of :: "set_order \<Rightarrow> string \<Rightarrow> string list \<Rightarrow> error + string list" where
  "get_all_keys_of set_order marker keylist =
     (case py_remove marker (set_order (candidates keylist)) of
        Inl e \<Rightarrow> Inl e
      | Inr keys \<Rightarrow> py_sort_key_int keys)"

definition get_most_recent_key_of :: "set_order \<Rightarrow> string \<Rightarrow> string list \<Rightarrow> error + string" where
  "get_most_recent_key_of set_order marker keylist =
     (case get_all_keys_of set_order marker keylist of
        Inl e \<Rightarrow> Inl e
      | Inr keys \<Rightarrow> py_last keys)"

definition zgroup :: string where
  "zgroup = ''.zgroup''"

definition get_all_keys :: "set_order \<Rightarrow> string list \<Rightarrow> error + string list" where
  "get_all_keys set_order keylist = get_all_keys_of set_order zgroup keylist"

definition get_most_recent_key :: "set_order \<Rightarrow> string list \<Rightarrow> error + string" where
  "get_most_recent_key set_order keylist = get_most_recent_key_of set_order zgroup keylist"

subsection \<open>The lists as objects\<close>








section \<open>Properties of the operations\<close>

subsection \<open>Splitting\<close>

lemma py_split_fst: "fst (py_split sep s) = takeWhile (\<lambda>c. c \<noteq> sep) s"
  by (induction s) (auto split: prod.splits)

lemma key_prefix_takeWhile: "key_prefix s = takeWhile (\<lambda>c. c \<noteq> CHR ''/'') s"
  by (simp add: key_prefix_def py_split_fst)

lemma py_split_join:
  "concat (map (\<lambda>p. sep # p) (fst (py_split sep s) # snd (py_split sep s))) = sep # s"
  by (induction s) (auto split: prod.splits)

lemma py_split_pieces:
  "p \<in> set (fst (py_split sep s) # snd (py_split sep s)) \<Longrightarrow> sep \<notin> set p"
  by (induction s arbitrary: p) (auto split: prod.splits if_splits)



subsection \<open>\<^verbatim>\<open>int\<close> on some literals\<close>

text \<open>
  Leading zeros, a sign, surrounding white space and single underscores are accepted;
  a blank after the sign, a leading, trailing or doubled underscore, a base prefix, a
  NUL and the separators 0x1C to 0x1F are not.
\<close>

lemma py_int_accepts:
  "map py_int [''7'', ''07'', ''-3'', ''+3'', '' 7 '', ''1_0'', ''-0'', ''00'',
       [CHR 0xA0, CHR ''1''], [CHR 0x0B, CHR ''1'', CHR 0x0C]]
   = map Some [7, 7, - 3, 3, 7, 10, 0, 0, 1, 1]"
  by code_simp

lemma py_int_rejects:
  "list_all (\<lambda>s. py_int s = None)
     [''_1'', ''1_'', ''1__0'', ''7x'', [], ''-'', '' '', ''- 3'', ''0x10'', ''1.0'', ''1 2'',
      ''--1'', ''+-1'', ''.zgroup'', [CHR 0x1C, CHR ''1''], [CHR ''1'', CHR 0x00]]"
  by code_simp

subsection \<open>Iteration orders of a set\<close>

lemma valid_set_order_remdups: "valid_set_order remdups"
  by (simp add: valid_set_order_def)

lemma valid_set_order_rev_remdups: "valid_set_order (rev \<circ> remdups)"
  by (simp add: valid_set_order_def)

subsection \<open>Sorting by the integer value\<close>

lemma int_keys_Inr:
  "int_keys xs = Inr ks \<Longrightarrow> map snd ks = xs \<and> (\<forall>p \<in> set ks. py_int (snd p) = Some (fst p))"
  by (induction xs arbitrary: ks) (auto split: option.splits sum.splits)

lemma int_keys_Inl:
  "int_keys xs = Inl e \<Longrightarrow> \<exists>s \<in> set xs. py_int s = None \<and> e = ValueError (InvalidLiteral s)"
  by (induction xs) (auto split: option.splits sum.splits)

lemma int_keys_total:
  "\<forall>s \<in> set xs. py_int s \<noteq> None \<Longrightarrow> \<exists>ks. int_keys xs = Inr ks"
  by (induction xs) (auto split: option.splits sum.splits)

lemma py_sort_key_int_Inr:
  assumes "py_sort_key_int xs = Inr ys"
  shows "mset ys = mset xs"
    and "\<exists>ns. map py_int ys = map Some ns \<and> sorted ns"
proof -
  from assms obtain ks where ks: "int_keys xs = Inr ks" and ys: "ys = map snd (sort_key fst ks)"
    by (auto simp: py_sort_key_int_def split: sum.splits)
  from int_keys_Inr [OF ks] have xs: "map snd ks = xs"
    and keys: "\<forall>p \<in> set ks. py_int (snd p) = Some (fst p)" by simp_all
  have "mset ys = mset (map snd ks)"
    unfolding ys by simp
  then show "mset ys = mset xs" by (simp add: xs)
  have "map py_int ys = map Some (map fst (sort_key fst ks))"
    unfolding ys using keys by simp
  moreover have "sorted (map fst (sort_key fst ks))" by simp
  ultimately show "\<exists>ns. map py_int ys = map Some ns \<and> sorted ns" by blast
qed

lemma py_sort_key_int_Inl:
  "py_sort_key_int xs = Inl e \<Longrightarrow> \<exists>s \<in> set xs. py_int s = None \<and> e = ValueError (InvalidLiteral s)"
  by (auto simp: py_sort_key_int_def split: sum.splits dest: int_keys_Inl)

lemma py_sort_key_int_total:
  "\<forall>s \<in> set xs. py_int s \<noteq> None \<Longrightarrow> \<exists>ys. py_sort_key_int xs = Inr ys"
  using int_keys_total [of xs] by (auto simp: py_sort_key_int_def)

lemma py_sort_key_int_fails_iff:
  "(\<exists>e. py_sort_key_int xs = Inl e) \<longleftrightarrow> (\<exists>s \<in> set xs. py_int s = None)"
proof
  assume "\<exists>e. py_sort_key_int xs = Inl e"
  then show "\<exists>s \<in> set xs. py_int s = None" by (blast dest: py_sort_key_int_Inl)
next
  assume bad: "\<exists>s \<in> set xs. py_int s = None"
  show "\<exists>e. py_sort_key_int xs = Inl e"
  proof (cases "py_sort_key_int xs")
    case (Inl e)
    then show ?thesis by blast
  next
    case (Inr ys)
    from py_sort_key_int_Inr(1) [OF Inr] have "set ys = set xs" by (rule mset_eq_setD)
    moreover from py_sort_key_int_Inr(2) [OF Inr] obtain ns where "map py_int ys = map Some ns" by blast
    then have "\<forall>s \<in> set ys. py_int s \<noteq> None"
      by (metis (no_types, lifting) imageE image_eqI list.set_map option.distinct(1))
    ultimately show ?thesis using bad by blast
  qed
qed

subsection \<open>The outcomes of \<open>get_all_keys_of\<close>\<close>

lemma get_all_keys_of_Inr:
  assumes ok: "valid_set_order set_order"
    and res: "get_all_keys_of set_order marker keylist = Inr ys"
  shows "marker \<in> set (candidates keylist)"
    and "distinct ys"
    and "set ys = set (candidates keylist) - {marker}"
    and "\<exists>ns. map py_int ys = map Some ns \<and> sorted ns"
proof -
  let ?ks = "set_order (candidates keylist)"
  from ok have d: "distinct ?ks" and s: "set ?ks = set (candidates keylist)"
    by (simp_all add: valid_set_order_def)
  from res have m: "marker \<in> set ?ks" and sorted: "py_sort_key_int (remove1 marker ?ks) = Inr ys"
    by (auto simp: get_all_keys_of_def py_remove_def split: if_splits)
  from m s show "marker \<in> set (candidates keylist)" by simp
  from py_sort_key_int_Inr(1) [OF sorted] have ms: "mset ys = mset (remove1 marker ?ks)" .
  from d have "distinct (remove1 marker ?ks)" by simp
  with ms show "distinct ys" by (metis mset_eq_imp_distinct_iff)
  from ms have "set ys = set (remove1 marker ?ks)" by (rule mset_eq_setD)
  with d s show "set ys = set (candidates keylist) - {marker}" by simp
  from py_sort_key_int_Inr(2) [OF sorted]
  show "\<exists>ns. map py_int ys = map Some ns \<and> sorted ns" .
qed

lemma get_all_keys_of_no_marker:
  assumes "valid_set_order set_order" and "marker \<notin> set (candidates keylist)"
  shows "get_all_keys_of set_order marker keylist = Inl (ValueError NotInList)"
  using assms by (simp add: get_all_keys_of_def py_remove_def valid_set_order_def)

lemma get_all_keys_of_bad_literal:
  assumes ok: "valid_set_order set_order" and m: "marker \<in> set (candidates keylist)"
  shows "(\<exists>e. get_all_keys_of set_order marker keylist = Inl e) \<longleftrightarrow>
         (\<exists>c \<in> set (candidates keylist) - {marker}. py_int c = None)"
    and "get_all_keys_of set_order marker keylist = Inl e \<Longrightarrow>
         \<exists>c \<in> set (candidates keylist) - {marker}. py_int c = None \<and> e = ValueError (InvalidLiteral c)"
proof -
  let ?ks = "set_order (candidates keylist)"
  from ok have d: "distinct ?ks" and s: "set ?ks = set (candidates keylist)"
    by (simp_all add: valid_set_order_def)
  from m s have eq: "get_all_keys_of set_order marker keylist = py_sort_key_int (remove1 marker ?ks)"
    by (simp add: get_all_keys_of_def py_remove_def)
  from d s have rs: "set (remove1 marker ?ks) = set (candidates keylist) - {marker}" by simp
  show "(\<exists>e. get_all_keys_of set_order marker keylist = Inl e) \<longleftrightarrow>
         (\<exists>c \<in> set (candidates keylist) - {marker}. py_int c = None)"
    unfolding eq py_sort_key_int_fails_iff rs ..
  show "get_all_keys_of set_order marker keylist = Inl e \<Longrightarrow>
         \<exists>c \<in> set (candidates keylist) - {marker}. py_int c = None \<and> e = ValueError (InvalidLiteral c)"
    unfolding eq using py_sort_key_int_Inl [of "remove1 marker ?ks" e] rs by simp
qed

lemma get_all_keys_of_total:
  assumes ok: "valid_set_order set_order" and m: "marker \<in> set (candidates keylist)"
    and wf: "\<forall>c \<in> set (candidates keylist) - {marker}. py_int c \<noteq> None"
  shows "\<exists>keys. get_all_keys_of set_order marker keylist = Inr keys"
  using get_all_keys_of_bad_literal(1) [OF ok m] wf
  by (cases "get_all_keys_of set_order marker keylist") auto

lemma strictly_sorted_keys:
  assumes "distinct ys" and "map py_int ys = map Some ns" and "sorted ns"
    and "inj_on py_int (set ys)"
  shows "sorted_wrt (<) ns"
proof -
  from assms(1,4) have "distinct (map py_int ys)" by (simp add: distinct_map)
  with assms(2) have "distinct ns" by (simp add: distinct_map)
  with assms(3) show ?thesis by (simp add: strict_sorted_iff)
qed

lemma get_all_keys_of_Inl_cases:
  assumes ok: "valid_set_order set_order"
    and res: "get_all_keys_of set_order marker keylist = Inl e"
  shows "(marker \<notin> set (candidates keylist) \<and> e = ValueError NotInList)
       \<or> (marker \<in> set (candidates keylist)
           \<and> (\<exists>c \<in> set (candidates keylist) - {marker}. py_int c = None \<and> e = ValueError (InvalidLiteral c)))"
proof (cases "marker \<in> set (candidates keylist)")
  case True
  with get_all_keys_of_bad_literal(2) [OF ok True res] show ?thesis by simp
next
  case False
  with get_all_keys_of_no_marker [OF ok False] res show ?thesis by simp
qed

lemma get_all_keys_of_empty_iff:
  assumes ok: "valid_set_order set_order"
  shows "get_all_keys_of set_order marker keylist = Inr [] \<longleftrightarrow> set (candidates keylist) = {marker}"
proof
  assume r: "get_all_keys_of set_order marker keylist = Inr []"
  from get_all_keys_of_Inr(1) [OF ok r] get_all_keys_of_Inr(3) [OF ok r]
  show "set (candidates keylist) = {marker}" by auto
next
  assume s: "set (candidates keylist) = {marker}"
  then have m: "marker \<in> set (candidates keylist)"
    and wf: "\<forall>c \<in> set (candidates keylist) - {marker}. py_int c \<noteq> None" by simp_all
  from get_all_keys_of_total [OF ok m wf]
  obtain keys where r: "get_all_keys_of set_order marker keylist = Inr keys" ..
  from get_all_keys_of_Inr(3) [OF ok r] s have "keys = []" by simp
  with r show "get_all_keys_of set_order marker keylist = Inr []" by simp
qed

lemma get_all_keys_of_Inl_is_ValueError:
  assumes "valid_set_order set_order"
    and "get_all_keys_of set_order marker keylist = Inl e"
  shows "\<exists>v. e = ValueError v"
proof (cases "marker \<in> set (candidates keylist)")
  case True
  from get_all_keys_of_bad_literal(2) [OF assms(1) True assms(2)] show ?thesis by blast
next
  case False
  from get_all_keys_of_no_marker [OF assms(1) False] assms(2) show ?thesis by simp
qed

lemma candidates_only_marker:
  assumes "set keylist = {marker}" and "CHR ''/'' \<notin> set marker"
  shows "set (candidates keylist) = {marker}"
proof -
  from assms(2) have "key_prefix marker = marker" by (auto simp: key_prefix_takeWhile)
  with assms(1) show ?thesis by (simp add: candidates_def)
qed




subsection \<open>A list of two candidates\<close>

lemma two_element_list:
  assumes "distinct ys" and "set ys = {a, b}" and "a \<noteq> b"
  shows "ys = [a, b] \<or> ys = [b, a]"
proof -
  from assms have "length ys = 2" using distinct_card [of ys] by simp
  then obtain x y where ys: "ys = [x, y]"
    by (cases ys; cases "tl ys") auto
  with assms(2) have "{x, y} = {a, b}" by simp
  then show ?thesis unfolding ys by (auto simp: doubleton_eq_iff)
qed

lemma numeric_order_any_marker:
  assumes ok: "valid_set_order set_order"
    and m: "key_prefix m = m" "m \<noteq> ''10''" "m \<noteq> ''2''"
  shows "get_all_keys_of set_order m [''10/a'', ''2/a'', ''2/b'', m] = Inr [''2'', ''10'']"
proof -
  let ?kl = "[''10/a'', ''2/a'', ''2/b'', m]"
  have p: "key_prefix ''10/a'' = ''10''" "key_prefix ''2/a'' = ''2''" "key_prefix ''2/b'' = ''2''"
    by code_simp+
  have cs: "candidates ?kl = [''10'', ''2'', ''2'', m]"
    by (simp add: candidates_def p m(1))
  have i10: "py_int ''10'' = Some 10" by code_simp
  have i2: "py_int ''2'' = Some 2" by code_simp
  have mem: "m \<in> set (candidates ?kl)" unfolding cs by simp
  have surv: "set (candidates ?kl) - {m} = {''10'', ''2''}" unfolding cs using m(2,3) by auto
  have "\<forall>c \<in> set (candidates ?kl) - {m}. py_int c \<noteq> None"
    unfolding surv using i10 i2 by simp
  from get_all_keys_of_total [OF ok mem this]
  obtain ys where res: "get_all_keys_of set_order m ?kl = Inr ys" ..
  from get_all_keys_of_Inr(2) [OF ok res] have d: "distinct ys" .
  from get_all_keys_of_Inr(3) [OF ok res] surv have s: "set ys = {''10'', ''2''}" by simp
  from get_all_keys_of_Inr(4) [OF ok res] obtain ns
    where ns: "map py_int ys = map Some ns" and sorted: "sorted ns" by blast
  from two_element_list [OF d s] have "ys = [''10'', ''2''] \<or> ys = [''2'', ''10'']" by simp
  then have "ys = [''2'', ''10'']"
  proof
    assume "ys = [''10'', ''2'']"
    with ns i10 i2 have "ns = [10, 2]" by auto
    with sorted show ?thesis by simp
  qed
  with res show ?thesis by simp
qed

subsection \<open>The heap model\<close>




section \<open>The claims\<close>

text \<open>
  C1, as amended. When the reserved marker is among the candidates and every other
  candidate is accepted by \<^verbatim>\<open>int\<close> with a non-negative value, \<^verbatim>\<open>get_all_keys\<close> returns
  the other candidates, each once (as strings), sorted ascending by integer value;
  the order is strictly ascending when no two of them have the same integer value.
\<close>

theorem sorted_ascending_no_duplicates:
  assumes ok: "valid_set_order set_order"
    and m: "marker \<in> set (candidates keylist)"
    and wf: "\<forall>c \<in> set (candidates keylist) - {marker}. \<exists>n. py_int c = Some n \<and> 0 \<le> n"
  shows "\<exists>keys ns. get_all_keys_of set_order marker keylist = Inr keys
           \<and> distinct keys
           \<and> set keys = set (candidates keylist) - {marker}
           \<and> map py_int keys = map Some ns
           \<and> sorted ns
           \<and> (inj_on py_int (set keys) \<longrightarrow> sorted_wrt (<) ns)"
proof -
  from wf have "\<forall>c \<in> set (candidates keylist) - {marker}. py_int c \<noteq> None" by auto
  from get_all_keys_of_total [OF ok m this]
  obtain keys where res: "get_all_keys_of set_order marker keylist = Inr keys" ..
  from get_all_keys_of_Inr(2) [OF ok res] have d: "distinct keys" .
  from get_all_keys_of_Inr(3) [OF ok res] have s: "set keys = set (candidates keylist) - {marker}" .
  from get_all_keys_of_Inr(4) [OF ok res] obtain ns
    where ns: "map py_int keys = map Some ns" and sorted: "sorted ns" by blast
  from strictly_sorted_keys [OF d ns sorted]
  have "inj_on py_int (set keys) \<longrightarrow> sorted_wrt (<) ns" by blast
  with res d s ns sorted show ?thesis by blast
qed

theorem sorted_ascending_no_duplicates_witness:
  "valid_set_order remdups
   \<and> zgroup \<in> set (candidates [''10/a'', ''2/a'', ''2/b'', ''.zgroup''])
   \<and> get_all_keys remdups [''10/a'', ''2/a'', ''2/b'', ''.zgroup''] = Inr [''2'', ''10'']
   \<and> map py_int [''2'', ''10''] = map Some [2, 10]
   \<and> sorted_wrt (<) [2, 10 :: int]"
proof -
  let ?kl = "[''10/a'', ''2/a'', ''2/b'', ''.zgroup'']"
  have h1: "valid_set_order remdups" by (rule valid_set_order_remdups)
  have cs: "candidates ?kl = [''10'', ''2'', ''2'', ''.zgroup'']" by code_simp
  have h2: "zgroup \<in> set (candidates ?kl)" unfolding cs zgroup_def by simp
  have i10: "py_int ''10'' = Some 10" by code_simp
  have i2: "py_int ''2'' = Some 2" by code_simp
  have surv: "set (candidates ?kl) - {zgroup} = {''10'', ''2''}"
    unfolding cs zgroup_def by auto
  have h3: "\<forall>c \<in> set (candidates ?kl) - {zgroup}. \<exists>n. py_int c = Some n \<and> 0 \<le> n"
    unfolding surv using i10 i2 by simp
  have ev: "get_all_keys_of remdups zgroup ?kl = Inr [''2'', ''10'']" by code_simp
  from sorted_ascending_no_duplicates [OF h1 h2 h3]
  obtain keys ns where "get_all_keys_of remdups zgroup ?kl = Inr keys"
    and "map py_int keys = map Some ns" and "sorted ns"
    and "inj_on py_int (set keys) \<longrightarrow> sorted_wrt (<) ns" by blast
  with ev have ns: "map py_int [''2'', ''10''] = map Some ns"
    and st: "inj_on py_int (set [''2'', ''10'']) \<longrightarrow> sorted_wrt (<) ns" by simp_all
  from ns i10 i2 have nsv: "ns = [2, 10]" by auto
  from h1 h2 ev ns st show ?thesis unfolding nsv by (simp add: get_all_keys_def i10 i2)
qed

text \<open>
  The claim as stated fails: \<^verbatim>\<open>'7'\<close> and \<^verbatim>\<open>'07'\<close> are different strings of the same
  value, and both stay in the result, in the iteration order of the set; and a
  non-empty well-formed input without the marker raises.
\<close>

theorem sorted_ascending_no_duplicates_counterexample:
  "get_all_keys remdups [''7/a'', ''07/a'', ''.zgroup''] = Inr [''7'', ''07'']
   \<and> get_all_keys (rev \<circ> remdups) [''7/a'', ''07/a'', ''.zgroup''] = Inr [''07'', ''7'']
   \<and> py_int ''7'' = Some 7 \<and> py_int ''07'' = Some 7
   \<and> get_all_keys remdups [''1/a''] = Inl (ValueError NotInList)
   \<and> py_int ''1'' = Some 1"
  by code_simp

text \<open>
  C2, as amended. \<^verbatim>\<open>get_all_keys\<close> raises the \<^verbatim>\<open>ValueError\<close> of \<^verbatim>\<open>int\<close> exactly when the
  reserved marker is among the candidates and \<^verbatim>\<open>int\<close> rejects some other candidate;
  the error names a rejected candidate. An input that contains \<^verbatim>\<open>'7x/a'\<close> always
  raises. When the call returns, every candidate other than the marker is in the
  result: none is skipped.
\<close>

theorem malformed_identifier_raises:
  assumes ok: "valid_set_order set_order"
  shows "((\<exists>s. get_all_keys_of set_order marker keylist = Inl (ValueError (InvalidLiteral s)))
            \<longleftrightarrow> marker \<in> set (candidates keylist)
                \<and> (\<exists>c \<in> set (candidates keylist) - {marker}. py_int c = None))
       \<and> (\<forall>s. get_all_keys_of set_order marker keylist = Inl (ValueError (InvalidLiteral s))
              \<longrightarrow> s \<in> set (candidates keylist) - {marker} \<and> py_int s = None)
       \<and> (''7x/a'' \<in> set keylist \<and> marker \<noteq> ''7x''
              \<longrightarrow> (\<exists>e. get_all_keys_of set_order marker keylist = Inl e))
       \<and> (\<forall>keys. get_all_keys_of set_order marker keylist = Inr keys
              \<longrightarrow> set keys = set (candidates keylist) - {marker} \<and> (\<forall>c \<in> set keys. py_int c \<noteq> None))"
proof (intro conjI allI impI)
  let ?res = "get_all_keys_of set_order marker keylist"
  let ?bad = "\<exists>c \<in> set (candidates keylist) - {marker}. py_int c = None"
  show "(\<exists>s. ?res = Inl (ValueError (InvalidLiteral s))) \<longleftrightarrow> marker \<in> set (candidates keylist) \<and> ?bad"
  proof
    assume "\<exists>s. ?res = Inl (ValueError (InvalidLiteral s))"
    then obtain s where s: "?res = Inl (ValueError (InvalidLiteral s))" ..
    from get_all_keys_of_Inl_cases [OF ok s]
    show "marker \<in> set (candidates keylist) \<and> ?bad" by auto
  next
    assume a: "marker \<in> set (candidates keylist) \<and> ?bad"
    with get_all_keys_of_bad_literal(1) [OF ok, of marker keylist]
    obtain e where e: "?res = Inl e" by blast
    from get_all_keys_of_Inl_cases [OF ok e] a
    show "\<exists>s. ?res = Inl (ValueError (InvalidLiteral s))" using e by auto
  qed
  show "s \<in> set (candidates keylist) - {marker}" "py_int s = None"
    if "?res = Inl (ValueError (InvalidLiteral s))" for s
    using get_all_keys_of_Inl_cases [OF ok that] by auto
  show "\<exists>e. ?res = Inl e" if h: "''7x/a'' \<in> set keylist \<and> marker \<noteq> ''7x''"
  proof (cases ?res)
    case (Inl e)
    then show ?thesis by blast
  next
    case (Inr keys)
    have "key_prefix ''7x/a'' = ''7x''" by code_simp
    with h have "''7x'' \<in> set (candidates keylist) - {marker}"
      by (force simp: candidates_def)
    moreover have "py_int ''7x'' = None" by code_simp
    moreover from get_all_keys_of_Inr(1) [OF ok Inr] have "marker \<in> set (candidates keylist)" .
    ultimately show ?thesis using get_all_keys_of_bad_literal(1) [OF ok, of marker keylist] by blast
  qed
  show "set keys = set (candidates keylist) - {marker}" if "?res = Inr keys" for keys
    using get_all_keys_of_Inr(3) [OF ok that] .
  show "\<forall>c \<in> set keys. py_int c \<noteq> None" if r: "?res = Inr keys" for keys
  proof -
    from get_all_keys_of_Inr(4) [OF ok r] obtain ns where "map py_int keys = map Some ns" by blast
    then show ?thesis
      by (metis (no_types, lifting) imageE image_eqI list.set_map option.distinct(1))
  qed
qed

theorem malformed_identifier_raises_witness:
  "valid_set_order remdups
   \<and> get_all_keys remdups [''7x/a'', ''3/a'', ''.zgroup''] = Inl (ValueError (InvalidLiteral ''7x''))
   \<and> zgroup \<in> set (candidates [''7x/a'', ''3/a'', ''.zgroup''])
   \<and> ''7x'' \<in> set (candidates [''7x/a'', ''3/a'', ''.zgroup'']) - {zgroup}
   \<and> py_int ''7x'' = None
   \<and> ''7x/a'' \<in> set [''7x/a''] \<and> zgroup \<noteq> ''7x''
   \<and> (\<exists>e. get_all_keys remdups [''7x/a''] = Inl e)
   \<and> get_all_keys remdups [''3/a'', ''.zgroup''] = Inr [''3'']
   \<and> set [''3''] = set (candidates [''3/a'', ''.zgroup'']) - {zgroup}
   \<and> py_int ''3'' \<noteq> None"
proof -
  let ?kl = "[''7x/a'', ''3/a'', ''.zgroup'']"
  have h1: "valid_set_order remdups" by (rule valid_set_order_remdups)
  have ev: "get_all_keys_of remdups zgroup ?kl = Inl (ValueError (InvalidLiteral ''7x''))"
    by code_simp
  from malformed_identifier_raises [OF h1, of zgroup ?kl] ev
  have a: "zgroup \<in> set (candidates ?kl)"
    and b: "''7x'' \<in> set (candidates ?kl) - {zgroup} \<and> py_int ''7x'' = None"
    by blast+
  have h2: "''7x/a'' \<in> set [''7x/a''] \<and> zgroup \<noteq> ''7x''" by (simp add: zgroup_def)
  with malformed_identifier_raises [OF h1, of zgroup "[''7x/a'']"]
  have c: "\<exists>e. get_all_keys_of remdups zgroup [''7x/a''] = Inl e" by blast
  have ev3: "get_all_keys_of remdups zgroup [''3/a'', ''.zgroup''] = Inr [''3'']" by code_simp
  with malformed_identifier_raises [OF h1, of zgroup "[''3/a'', ''.zgroup'']"]
  have d: "set [''3''] = set (candidates [''3/a'', ''.zgroup'']) - {zgroup}
           \<and> (\<forall>c \<in> set [''3'']. py_int c \<noteq> None)" by blast
  from h1 ev a b h2 c ev3 d show ?thesis by (simp add: get_all_keys_def)
qed

text \<open>
  The claim as stated fails: \<^verbatim>\<open>int\<close> accepts a sign, so the candidate \<^verbatim>\<open>'-3'\<close>, which is
  not a non-negative integer, is returned and nothing is raised.
\<close>

theorem malformed_identifier_raises_counterexample:
  "get_all_keys remdups [''-3/a'', ''.zgroup''] = Inr [''-3''] \<and> py_int ''-3'' = Some (- 3)"
  by code_simp

text \<open>
  C3, as amended. \<^verbatim>\<open>get_most_recent_key\<close> raises whenever no identifier remains, and
  returns nothing: \<^verbatim>\<open>IndexError\<close> when the candidates are exactly the reserved marker
  (so on an input that contains only the marker), and the \<^verbatim>\<open>ValueError\<close> of
  \<^verbatim>\<open>list.remove\<close> when there is no candidate at all. \<^verbatim>\<open>IndexError\<close> is raised in no other
  case.
\<close>

theorem most_recent_raises_when_nothing_remains:
  assumes ok: "valid_set_order set_order"
  shows "(set (candidates keylist) = {marker}
            \<longrightarrow> get_most_recent_key_of set_order marker keylist = Inl IndexError)
       \<and> (set (candidates keylist) = {}
            \<longrightarrow> get_most_recent_key_of set_order marker keylist = Inl (ValueError NotInList))
       \<and> (get_most_recent_key_of set_order marker keylist = Inl IndexError
            \<longrightarrow> set (candidates keylist) = {marker})
       \<and> (set keylist = {marker} \<and> CHR ''/'' \<notin> set marker
            \<longrightarrow> get_most_recent_key_of set_order marker keylist = Inl IndexError)"
proof (intro conjI impI)
  let ?mr = "get_most_recent_key_of set_order marker keylist"
  show only: "?mr = Inl IndexError" if "set (candidates keylist) = {marker}"
    using get_all_keys_of_empty_iff [OF ok, of marker keylist] that
    by (simp add: get_most_recent_key_of_def py_last_def)
  show "?mr = Inl (ValueError NotInList)" if "set (candidates keylist) = {}"
    using get_all_keys_of_no_marker [OF ok, of marker keylist] that
    by (simp add: get_most_recent_key_of_def)
  show "set (candidates keylist) = {marker}" if ie: "?mr = Inl IndexError"
  proof (cases "get_all_keys_of set_order marker keylist")
    case (Inl e)
    from get_all_keys_of_Inl_is_ValueError [OF ok Inl] ie Inl show ?thesis
      by (auto simp: get_most_recent_key_of_def)
  next
    case (Inr keys)
    with ie have "keys = []"
      by (simp add: get_most_recent_key_of_def py_last_def split: if_splits)
    with Inr get_all_keys_of_empty_iff [OF ok, of marker keylist] show ?thesis by simp
  qed
  show "?mr = Inl IndexError" if "set keylist = {marker} \<and> CHR ''/'' \<notin> set marker"
    using only candidates_only_marker [of keylist marker] that by blast
qed

theorem most_recent_raises_when_nothing_remains_witness:
  "valid_set_order remdups
   \<and> set [''.zgroup'', ''.zgroup''] = {zgroup} \<and> CHR ''/'' \<notin> set zgroup
   \<and> get_most_recent_key remdups [''.zgroup'', ''.zgroup''] = Inl IndexError
   \<and> set (candidates [''.zgroup'', ''.zgroup'']) = {zgroup}
   \<and> set (candidates [''.zgroup'', ''.zgroup/.zattrs'']) = {zgroup}
   \<and> get_most_recent_key remdups [''.zgroup'', ''.zgroup/.zattrs''] = Inl IndexError
   \<and> set (candidates []) = {}
   \<and> get_most_recent_key remdups [] = Inl (ValueError NotInList)"
proof -
  let ?kl = "[''.zgroup'', ''.zgroup'']"
  let ?kl2 = "[''.zgroup'', ''.zgroup/.zattrs'']"
  have h1: "valid_set_order remdups" by (rule valid_set_order_remdups)
  have h2: "set ?kl = {zgroup} \<and> CHR ''/'' \<notin> set zgroup" by (simp add: zgroup_def)
  from most_recent_raises_when_nothing_remains [OF h1, of ?kl zgroup] h2
  have r: "get_most_recent_key_of remdups zgroup ?kl = Inl IndexError" by blast
  with most_recent_raises_when_nothing_remains [OF h1, of ?kl zgroup]
  have s: "set (candidates ?kl) = {zgroup}" by blast
  have h3: "set (candidates ?kl2) = {zgroup}" by code_simp
  with most_recent_raises_when_nothing_remains [OF h1, of ?kl2 zgroup]
  have r2: "get_most_recent_key_of remdups zgroup ?kl2 = Inl IndexError" by blast
  have h4: "set (candidates []) = {}" by (simp add: candidates_def)
  with most_recent_raises_when_nothing_remains [OF h1, of "[]" zgroup]
  have r3: "get_most_recent_key_of remdups zgroup [] = Inl (ValueError NotInList)" by blast
  from h1 h2 r s h3 r2 h4 r3 show ?thesis by (simp add: get_most_recent_key_def)
qed

text \<open>
  The claim as stated fails on the empty input: no identifier remains, and the
  exception is the \<^verbatim>\<open>ValueError\<close> of \<^verbatim>\<open>list.remove\<close>, not \<^verbatim>\<open>IndexError\<close>.
\<close>

theorem most_recent_raises_when_nothing_remains_counterexample:
  "set (candidates []) - {zgroup} = {}
   \<and> get_most_recent_key remdups [] = Inl (ValueError NotInList)"
  by code_simp

text \<open>
  C4, as amended. On the empty input \<^verbatim>\<open>get_all_keys\<close> raises the \<^verbatim>\<open>ValueError\<close> of
  \<^verbatim>\<open>list.remove\<close>, whatever the reserved marker. It returns the empty list exactly on
  the inputs whose candidates are the marker and nothing else.
\<close>

theorem empty_input_raises:
  assumes ok: "valid_set_order set_order"
  shows "get_all_keys_of set_order marker [] = Inl (ValueError NotInList)
       \<and> (get_all_keys_of set_order marker keylist = Inr []
            \<longleftrightarrow> set (candidates keylist) = {marker})"
proof
  have "marker \<notin> set (candidates [])" by (simp add: candidates_def)
  with ok show "get_all_keys_of set_order marker [] = Inl (ValueError NotInList)"
    by (rule get_all_keys_of_no_marker)
  from ok show "get_all_keys_of set_order marker keylist = Inr []
      \<longleftrightarrow> set (candidates keylist) = {marker}"
    by (rule get_all_keys_of_empty_iff)
qed

theorem empty_input_raises_witness:
  "valid_set_order remdups
   \<and> get_all_keys_of remdups ''.meta'' [] = Inl (ValueError NotInList)
   \<and> set (candidates [''.meta'']) = {''.meta''}
   \<and> get_all_keys_of remdups ''.meta'' [''.meta''] = Inr []"
proof -
  have h1: "valid_set_order remdups" by (rule valid_set_order_remdups)
  have c: "set (candidates [''.meta'']) = {''.meta''}" by code_simp
  from empty_input_raises [OF h1, of "''.meta''" "[''.meta'']"] c h1
  show ?thesis by simp
qed

text \<open>The claim as stated fails: the call on the empty input raises.\<close>

theorem empty_input_raises_counterexample:
  "get_all_keys remdups [] = Inl (ValueError NotInList)"
  by code_simp

text \<open>
  C5. On every input on which \<^verbatim>\<open>get_all_keys\<close> returns a non-empty list,
  \<^verbatim>\<open>get_most_recent_key\<close> returns the last element of that list.
\<close>

theorem most_recent_is_last:
  assumes "get_all_keys_of set_order marker keylist = Inr keys"
    and "keys \<noteq> []"
  shows "get_most_recent_key_of set_order marker keylist = Inr (last keys)"
  using assms by (simp add: get_most_recent_key_of_def py_last_def)

theorem most_recent_is_last_witness:
  "get_all_keys remdups [''.zgroup'', ''3/.zarray'', ''12/0.0'', ''3/0.0''] = Inr [''3'', ''12'']
   \<and> [''3'', ''12''] \<noteq> []
   \<and> get_most_recent_key remdups [''.zgroup'', ''3/.zarray'', ''12/0.0'', ''3/0.0''] = Inr ''12''"
proof -
  have h1: "get_all_keys_of remdups zgroup [''.zgroup'', ''3/.zarray'', ''12/0.0'', ''3/0.0''] = Inr [''3'', ''12'']"
    by code_simp
  have h2: "[''3'', ''12''] \<noteq> ([] :: string list)" by simp
  from most_recent_is_last [OF h1 h2] h1 show ?thesis
    by (simp add: get_all_keys_def get_most_recent_key_def)
qed

text \<open>
  C6. However many times the reserved marker occurs among the raw keys, it never
  occurs in the list that \<^verbatim>\<open>get_all_keys\<close> returns.
\<close>

theorem marker_never_in_output:
  assumes "valid_set_order set_order"
    and "get_all_keys_of set_order marker keylist = Inr keys"
  shows "marker \<notin> set keys"
  using get_all_keys_of_Inr(3) [OF assms] by simp

theorem marker_never_in_output_witness:
  "valid_set_order remdups
   \<and> get_all_keys remdups [''.zgroup'', ''1/a'', ''.zgroup/x'', ''.zgroup''] = Inr [''1'']
   \<and> zgroup \<notin> set [''1'']"
proof -
  have h1: "valid_set_order remdups" by (rule valid_set_order_remdups)
  have h2: "get_all_keys_of remdups zgroup [''.zgroup'', ''1/a'', ''.zgroup/x'', ''.zgroup''] = Inr [''1'']"
    by code_simp
  from marker_never_in_output [OF h1 h2] h1 h2 show ?thesis
    by (simp add: get_all_keys_def)
qed

text \<open>
  C7, as amended. The reserved marker is the literal \<^verbatim>\<open>'.zgroup'\<close>. On the raw keys
  \<^verbatim>\<open>['10/a', '2/a', '2/b', '.zgroup']\<close> \<^verbatim>\<open>get_all_keys\<close> returns \<^verbatim>\<open>['2', '10']\<close>: the order is
  by integer value, not lexicographic. On \<^verbatim>\<open>['10/a', '2/a', '2/b', '.meta']\<close> it raises the
  \<^verbatim>\<open>ValueError\<close> of \<^verbatim>\<open>list.remove\<close>.
\<close>

theorem numeric_order_example:
  assumes ok: "valid_set_order set_order"
  shows "get_all_keys set_order [''10/a'', ''2/a'', ''2/b'', ''.zgroup''] = Inr [''2'', ''10'']
    \<and> get_all_keys set_order [''10/a'', ''2/a'', ''2/b'', ''.meta''] = Inl (ValueError NotInList)"
proof
  have "key_prefix ''.zgroup'' = ''.zgroup''" by code_simp
  from numeric_order_any_marker [OF ok this]
  show "get_all_keys set_order [''10/a'', ''2/a'', ''2/b'', ''.zgroup''] = Inr [''2'', ''10'']"
    by (simp add: get_all_keys_def zgroup_def)
  have "zgroup \<notin> set (candidates [''10/a'', ''2/a'', ''2/b'', ''.meta''])" by code_simp
  with ok show "get_all_keys set_order [''10/a'', ''2/a'', ''2/b'', ''.meta''] = Inl (ValueError NotInList)"
    unfolding get_all_keys_def by (rule get_all_keys_of_no_marker)
qed

theorem numeric_order_example_witness:
  "valid_set_order (rev \<circ> remdups)
   \<and> get_all_keys (rev \<circ> remdups) [''10/a'', ''2/a'', ''2/b'', ''.zgroup''] = Inr [''2'', ''10'']
   \<and> get_all_keys (rev \<circ> remdups) [''10/a'', ''2/a'', ''2/b'', ''.meta''] = Inl (ValueError NotInList)"
  using numeric_order_example [of "rev \<circ> remdups"] valid_set_order_rev_remdups by simp

text \<open>
  The claim as stated fails: the notebook's function takes no marker, and on the
  keys of the claim, which hold \<^verbatim>\<open>'.meta'\<close> and not \<^verbatim>\<open>'.zgroup'\<close>, it raises.
\<close>

theorem numeric_order_example_counterexample:
  "get_all_keys remdups [''10/a'', ''2/a'', ''2/b'', ''.meta''] = Inl (ValueError NotInList)
   \<and> get_all_keys (rev \<circ> remdups) [''10/a'', ''2/a'', ''2/b'', ''.meta''] = Inl (ValueError NotInList)"
  by code_simp






text \<open>
  C10. For every input whose candidate prefixes do not contain the reserved marker,
  \<^verbatim>\<open>get_all_keys\<close> raises (the \<^verbatim>\<open>ValueError\<close> of \<^verbatim>\<open>list.remove\<close>) instead of returning the
  sorted candidates: the marker is removed unconditionally.
\<close>

theorem marker_removal_unconditional:
  assumes "valid_set_order set_order"
    and "marker \<notin> set (candidates keylist)"
  shows "get_all_keys_of set_order marker keylist = Inl (ValueError NotInList)"
  using assms by (rule get_all_keys_of_no_marker)

theorem marker_removal_unconditional_witness:
  "valid_set_order remdups \<and> zgroup \<notin> set (candidates [''1/a'', ''2/a''])
   \<and> get_all_keys remdups [''1/a'', ''2/a''] = Inl (ValueError NotInList)"
proof -
  have h1: "valid_set_order remdups" by (rule valid_set_order_remdups)
  have h2: "zgroup \<notin> set (candidates [''1/a'', ''2/a''])" by code_simp
  from marker_removal_unconditional [OF h1 h2] h1 h2 show ?thesis
    by (simp add: get_all_keys_def)
qed

end
